theory Spec2Isabelle
  imports Complex_Main "HOL-Library.AList"
begin

section \<open>Data model: cells, rows and data frames\<close>

text \<open>
  The program (\<^verbatim>\<open>main.py\<close>) works on one pandas data frame \<^verbatim>\<open>df\<close>. A cell of the
  frame is a missing value (pandas' \<^verbatim>\<open>NaN\<close>), a number, or a text. Numbers are kept
  exactly, as decimal fractions: \<open>Num m d\<close> is the number \<open>m / 10 ^ d\<close>, so
  \<open>Num 12345 1\<close> is \<open>1234.5\<close>. The rounding and the range of binary floating point are
  not part of the model; the two infinities, which pandas reads from the texts
  \<^verbatim>\<open>inf\<close> and \<^verbatim>\<open>infinity\<close>, are.
\<close>

datatype cell = NaN | Num int nat | PosInf | NegInf | Str string

text \<open>
  A row maps column names to cells (an association list; a name the row does not hold
  reads as \<open>NaN\<close>). A data frame has its column labels, in order, and its rows, in order.
\<close>

type_synonym row = "(string \<times> cell) list"

record dataframe =
  columns :: "string list"
  rows :: "row list"

datatype error = KeyError "string list" | TypeError

definition row_get :: "row \<Rightarrow> string \<Rightarrow> cell" where
  "row_get r c = (case map_of r c of None \<Rightarrow> NaN | Some v \<Rightarrow> v)"

text \<open>\<^verbatim>\<open>df[col]\<close> for a label that is present: the cells of the column, one per row.\<close>

definition getitem :: "dataframe \<Rightarrow> string \<Rightarrow> cell list" where
  "getitem df col = map (\<lambda>r. row_get r col) (rows df)"

text \<open>
  \<^verbatim>\<open>df[col] = series\<close>: the series is derived from the frame, so it has one cell
  per row; an existing label keeps its position, a new one is appended.
\<close>

definition setitem :: "dataframe \<Rightarrow> string \<Rightarrow> cell list \<Rightarrow> dataframe" where
  "setitem df col vs =
     \<lparr>columns = (if col \<in> set (columns df) then columns df else columns df @ [col]),
      rows = map (\<lambda>(r, v). AList.update col v r) (zip (rows df) vs)\<rparr>"

section \<open>The pandas operations used by \<^verbatim>\<open>clean_numeric\<close>\<close>

subsection \<open>Decimal digits\<close>

definition digit_val :: "char \<Rightarrow> nat option" where
  "digit_val c =
     (let n = (of_char c :: nat) in if 48 \<le> n \<and> n \<le> 57 then Some (n - 48) else None)"

definition digit_char :: "nat \<Rightarrow> char" where
  "digit_char n = ''0123456789'' ! n"

fun digits_val :: "string \<Rightarrow> nat \<Rightarrow> nat option" where
  "digits_val [] acc = Some acc"
| "digits_val (c # cs) acc =
     (case digit_val c of None \<Rightarrow> None | Some v \<Rightarrow> digits_val cs (10 * acc + v))"

fun digits_of :: "nat \<Rightarrow> string" where
  "digits_of n =
     (if n < 10 then [digit_char n] else digits_of (n div 10) @ [digit_char (n mod 10)])"

declare digits_of.simps [simp del]

subsection \<open>\<^verbatim>\<open>.astype(str)\<close>\<close>

text \<open>
  A number is written in positional decimal notation, with exactly \<open>d\<close> digits after
  the point when \<open>d > 0\<close> and as an integer when \<open>d = 0\<close>; the text of a text is itself.
  This is the exact text of the exact number. The program prints a binary floating-point
  number, with at most 17 significant digits and an exponent where Python uses one; the
  model does not.
\<close>

definition zero_pad :: "nat \<Rightarrow> string \<Rightarrow> string" where
  "zero_pad k s = replicate (k - length s) (CHR ''0'') @ s"

definition dec_str :: "int \<Rightarrow> nat \<Rightarrow> string" where
  "dec_str m d =
     (let ds = zero_pad (Suc d) (digits_of (nat \<bar>m\<bar>));
          body = (if d = 0 then ds
                  else take (length ds - d) ds @ ''.'' @ drop (length ds - d) ds)
      in (if m < 0 then ''-'' else '''') @ body)"

fun astype_str :: "cell \<Rightarrow> string" where
  "astype_str NaN = ''nan''"
| "astype_str (Num m d) = dec_str m d"
| "astype_str PosInf = ''inf''"
| "astype_str NegInf = ''-inf''"
| "astype_str (Str s) = s"

subsection \<open>\<^verbatim>\<open>.str.replace(pat, repl)\<close> for a one-character pattern\<close>

definition str_replace :: "char \<Rightarrow> string \<Rightarrow> string \<Rightarrow> string" where
  "str_replace pat repl s = concat (map (\<lambda>c. if c = pat then repl else [c]) s)"

subsection \<open>\<^verbatim>\<open>pd.to_numeric(..., errors="coerce")\<close>\<close>

text \<open>
  The text of a number is an optional sign, then either one of the words
  \<^verbatim>\<open>inf\<close> and \<^verbatim>\<open>infinity\<close> (in any letter case) or decimal digits with an optional
  point and an optional exponent (\<^verbatim>\<open>e\<close> or \<^verbatim>\<open>E\<close>, an optional sign, digits).
  The number read is exact. Three things pandas' parser does are not modelled: it skips
  tabs and line breaks around the number, it reads at most 17 digits and rounds to
  binary floating point, and it rejects a number too large for that format. So what is
  proved below about a cell holds of its exact decimal value; printing a number and
  reading it back is exact here, while in the program it depends on that rounding.
\<close>

definition split_sign :: "string \<Rightarrow> bool \<times> string" where
  "split_sign s =
     (case s of
        [] \<Rightarrow> (False, [])
      | c # cs \<Rightarrow> if c = CHR ''-'' then (True, cs)
                   else if c = CHR ''+'' then (False, cs) else (False, s))"

definition lower_code :: "char \<Rightarrow> nat" where
  "lower_code c = (let n = (of_char c :: nat) in if 65 \<le> n \<and> n \<le> 90 then n + 32 else n)"

definition is_inf_word :: "string \<Rightarrow> bool" where
  "is_inf_word s =
     (map lower_code s = map of_char ''inf'' \<or> map lower_code s = map of_char ''infinity'')"

text \<open>The mantissa: digits, at most one point, at least one digit.\<close>

definition parse_mantissa :: "string \<Rightarrow> (nat \<times> nat) option" where
  "parse_mantissa s =
     (let ip = takeWhile (\<lambda>c. c \<noteq> CHR ''.'') s;
          fp = drop (Suc (length ip)) s
      in if ip @ fp = [] then None
         else case digits_val (ip @ fp) 0 of
                None \<Rightarrow> None
              | Some n \<Rightarrow> Some (n, length fp))"

text \<open>The exponent: nothing, or the marker followed by a signed, non-empty run of digits.\<close>

definition parse_exponent :: "string \<Rightarrow> int option" where
  "parse_exponent s =
     (case s of
        [] \<Rightarrow> Some 0
      | _ # t \<Rightarrow>
          (case split_sign t of
             (neg, ds) \<Rightarrow>
               if ds = [] then None
               else case digits_val ds 0 of
                      None \<Rightarrow> None
                    | Some n \<Rightarrow> Some (if neg then - int n else int n)))"

definition scale :: "bool \<Rightarrow> nat \<Rightarrow> nat \<Rightarrow> int \<Rightarrow> cell" where
  "scale neg n d e =
     (let m = (if neg then - int n else int n)
      in if int d \<le> e then Num (m * 10 ^ nat (e - int d)) 0 else Num m (nat (int d - e)))"

definition parse_float :: "string \<Rightarrow> cell option" where
  "parse_float s =
     (case split_sign s of
        (neg, body) \<Rightarrow>
          if is_inf_word body then Some (if neg then NegInf else PosInf)
          else
            (let mant = takeWhile (\<lambda>c. c \<noteq> CHR ''e'' \<and> c \<noteq> CHR ''E'') body;
                 ex = drop (length mant) body
             in case parse_mantissa mant of
                  None \<Rightarrow> None
                | Some (n, d) \<Rightarrow>
                    (case parse_exponent ex of
                       None \<Rightarrow> None
                     | Some e \<Rightarrow> Some (scale neg n d e))))"

text \<open>
  With \<^verbatim>\<open>errors="coerce"\<close> a text that is not the text of a number becomes \<open>NaN\<close>;
  a cell that is no text is left as it is.
\<close>

fun to_numeric :: "cell \<Rightarrow> cell" where
  "to_numeric (Str s) = (case parse_float s of None \<Rightarrow> NaN | Some v \<Rightarrow> v)"
| "to_numeric c = c"

subsection \<open>\<^verbatim>\<open>.fillna(value)\<close>\<close>

definition fillna :: "cell \<Rightarrow> cell \<Rightarrow> cell" where
  "fillna v c = (if c = NaN then v else c)"

section \<open>\<^verbatim>\<open>clean_numeric\<close>\<close>

text \<open>
  The body of the loop for one column \<^verbatim>\<open>col\<close> that is in \<^verbatim>\<open>df.columns\<close>: the two
  assignments to \<^verbatim>\<open>df[col]\<close>.
\<close>

definition clean_col :: "dataframe \<Rightarrow> string \<Rightarrow> dataframe" where
  "clean_col df col =
     (let df1 = setitem df col
                  (map (\<lambda>c. Str (str_replace (CHR '' '') '''' (str_replace (CHR '','') '''' (astype_str c))))
                     (getitem df col))
      in setitem df1 col (map to_numeric (getitem df1 col)))"

fun clean_loop :: "dataframe \<Rightarrow> string list \<Rightarrow> dataframe" where
  "clean_loop df [] = df"
| "clean_loop df (col # cols) =
     clean_loop (if col \<in> set (columns df) then clean_col df col else df) cols"

text \<open>
  \<^verbatim>\<open>df[numeric_cols] = df[numeric_cols].fillna(0)\<close>: selecting a list of labels raises
  \<^verbatim>\<open>KeyError\<close> when one of them is not a column of the frame.
\<close>

fun fill_cols :: "dataframe \<Rightarrow> string list \<Rightarrow> dataframe" where
  "fill_cols df [] = df"
| "fill_cols df (col # cols) =
     fill_cols (setitem df col (map (fillna (Num 0 0)) (getitem df col))) cols"

definition clean_numeric :: "dataframe \<Rightarrow> string list \<Rightarrow> error + dataframe" where
  "clean_numeric df numeric_cols =
     (let df1 = clean_loop df numeric_cols;
          missing = filter (\<lambda>c. c \<notin> set (columns df1)) numeric_cols
      in if missing \<noteq> [] then Inl (KeyError missing)
         else Inr (fill_cols df1 numeric_cols))"

definition numeric_cols :: "string list" where
  "numeric_cols = [''Production'', ''AvgPrice'', ''Sellout'']"

section \<open>The sample data\<close>

text \<open>
  NumPy's generator is a parameter of the model: \<open>seed\<close> is \<^verbatim>\<open>np.random.seed\<close>, which
  replaces the state of the global generator, and \<open>randn\<close> is \<^verbatim>\<open>np.random.randn()\<close>,
  which draws one number and advances the state. A number is a pair \<open>(m, d)\<close>, read as
  \<open>m / 10 ^ d\<close>.
\<close>

type_synonym dec = "int \<times> nat"

definition dec_mul :: "dec \<Rightarrow> dec \<Rightarrow> dec" where
  "dec_mul x y = (fst x * fst y, snd x + snd y)"

definition dec_add :: "dec \<Rightarrow> dec \<Rightarrow> dec" where
  "dec_add x y =
     (let k = max (snd x) (snd y)
      in (fst x * 10 ^ (k - snd x) + fst y * 10 ^ (k - snd y), k))"

definition months :: "string list" where
  "months = [''Jan'', ''Feb'', ''Mar'', ''Apr'', ''May'', ''Jun'',
             ''Jul'', ''Aug'', ''Sep'', ''Oct'', ''Nov'', ''Dec'']"

definition years :: "int list" where
  "years = [2023, 2024, 2025]"

text \<open>\<^verbatim>\<open>[base * (1 + np.random.randn()*noise) for _ in months]\<close>\<close>

fun yearly_loop :: "('g \<Rightarrow> dec \<times> 'g) \<Rightarrow> int \<Rightarrow> dec \<Rightarrow> string list \<Rightarrow> 'g \<Rightarrow> cell list \<times> 'g" where
  "yearly_loop randn base noise [] g = ([], g)"
| "yearly_loop randn base noise (m # ms) g =
     (case randn g of
        (x, g1) \<Rightarrow>
          (case yearly_loop randn base noise ms g1 of
             (vs, g2) \<Rightarrow>
               (case dec_mul (base, 0) (dec_add (1, 0) (dec_mul x noise)) of
                  (v, d) \<Rightarrow> (Num v d # vs, g2))))"

definition create_yearly_series :: "('g \<Rightarrow> dec \<times> 'g) \<Rightarrow> int \<Rightarrow> dec \<Rightarrow> 'g \<Rightarrow> cell list \<times> 'g" where
  "create_yearly_series randn base noise g = yearly_loop randn base noise months g"

text \<open>
  The frame of one year: the dictionary's values are evaluated in the order they are
  written, so \<^verbatim>\<open>Production\<close> draws first, then \<^verbatim>\<open>AvgPrice\<close>, then \<^verbatim>\<open>Sellout\<close>.
\<close>

definition year_frame :: "('g \<Rightarrow> dec \<times> 'g) \<Rightarrow> int \<Rightarrow> 'g \<Rightarrow> row list \<times> 'g" where
  "year_frame randn y g =
     (case create_yearly_series randn
             (if y = 2023 then 900000 else if y = 2024 then 950000 else 1100000) (15, 2) g of
        (production, g1) \<Rightarrow>
          (case create_yearly_series randn
                  (if y = 2023 then 65 else if y = 2024 then 67 else 72) (5, 2) g1 of
             (avgprice, g2) \<Rightarrow>
               (case create_yearly_series randn
                       (if y = 2023 then 1000000 else if y = 2024 then 1200000 else 1450000)
                       (15, 2) g2 of
                  (sellout, g3) \<Rightarrow>
                    (map (\<lambda>(m, p, a, s).
                            [(''Month'', Str m), (''Year'', Num y 0), (''Production'', p),
                             (''AvgPrice'', a), (''Sellout'', s)])
                       (zip months (zip production (zip avgprice sellout))),
                     g3))))"

fun data_loop :: "('g \<Rightarrow> dec \<times> 'g) \<Rightarrow> int list \<Rightarrow> 'g \<Rightarrow> row list \<times> 'g" where
  "data_loop randn [] g = ([], g)"
| "data_loop randn (y # ys) g =
     (case year_frame randn y g of
        (rs, g1) \<Rightarrow> (case data_loop randn ys g1 of (rs', g2) \<Rightarrow> (rs @ rs', g2)))"

text \<open>
  The \<^verbatim>\<open>else\<close> branch of the load step, run with the global generator in state \<open>g\<close>:
  it returns the frame and the state it leaves the generator in.
\<close>

definition sample_data :: "(nat \<Rightarrow> 'g) \<Rightarrow> ('g \<Rightarrow> dec \<times> 'g) \<Rightarrow> 'g \<Rightarrow> dataframe \<times> 'g" where
  "sample_data seed randn g =
     (case data_loop randn years (seed 42) of
        (rs, g') \<Rightarrow>
          (\<lparr>columns = [''Month'', ''Year'', ''Production'', ''AvgPrice'', ''Sellout''],
            rows = rs\<rparr>, g'))"

section \<open>The sidebar filters\<close>

text \<open>
  \<^verbatim>\<open>df["Region"] == region\<close>, cell by cell: a missing value equals nothing, numbers are
  compared by value, texts letter by letter, and a number never equals a text.
\<close>

fun cell_eq :: "cell \<Rightarrow> cell \<Rightarrow> bool" where
  "cell_eq (Num m d) (Num m' d') = (m * 10 ^ d' = m' * 10 ^ d)"
| "cell_eq PosInf PosInf = True"
| "cell_eq NegInf NegInf = True"
| "cell_eq (Str s) (Str t) = (s = t)"
| "cell_eq _ _ = False"

text \<open>\<^verbatim>\<open>df[mask]\<close>: the rows at which the mask is true, in their order.\<close>

definition getitem_mask :: "dataframe \<Rightarrow> bool list \<Rightarrow> dataframe" where
  "getitem_mask df keep =
     \<lparr>columns = columns df, rows = map fst (filter snd (zip (rows df) keep))\<rparr>"

text \<open>
  One of the two filter statements: \<open>sentinel\<close> is the first option of the select box
  (\<^verbatim>\<open>"All Regions"\<close>, \<^verbatim>\<open>"All Categories"\<close>), \<open>selected\<close> the option the user chose.
\<close>

definition filter_step :: "string \<Rightarrow> string \<Rightarrow> cell \<Rightarrow> dataframe \<Rightarrow> dataframe" where
  "filter_step sentinel col selected df =
     (if selected \<noteq> Str sentinel \<and> col \<in> set (columns df)
      then getitem_mask df (map (\<lambda>v. cell_eq v selected) (getitem df col))
      else df)"

definition apply_filters :: "dataframe \<Rightarrow> cell \<Rightarrow> cell \<Rightarrow> dataframe" where
  "apply_filters df region category =
     filter_step ''All Categories'' ''Category'' category
       (filter_step ''All Regions'' ''Region'' region df)"

section \<open>The category pricing table\<close>

text \<open>
  The order in which \<^verbatim>\<open>groupby\<close> sorts its keys: numbers by value, texts by the codes of
  their letters, and numbers before texts.
\<close>

fun str_le :: "string \<Rightarrow> string \<Rightarrow> bool" where
  "str_le [] t = True"
| "str_le (x # xs) [] = False"
| "str_le (x # xs) (y # ys) =
     ((of_char x :: nat) < of_char y \<or> (x = y \<and> str_le xs ys))"

fun rank :: "cell \<Rightarrow> nat" where
  "rank NegInf = 0"
| "rank (Num m d) = 1"
| "rank PosInf = 2"
| "rank (Str s) = 3"
| "rank NaN = 4"

fun same_rank_le :: "cell \<Rightarrow> cell \<Rightarrow> bool" where
  "same_rank_le (Num m d) (Num m' d') = (m * 10 ^ d' \<le> m' * 10 ^ d)"
| "same_rank_le (Str s) (Str t) = str_le s t"
| "same_rank_le _ _ = True"

definition cell_le :: "cell \<Rightarrow> cell \<Rightarrow> bool" where
  "cell_le a b = (rank a < rank b \<or> (rank a = rank b \<and> same_rank_le a b))"

fun insort_cell :: "cell \<Rightarrow> cell list \<Rightarrow> cell list" where
  "insort_cell x [] = [x]"
| "insort_cell x (y # ys) = (if cell_le x y then x # y # ys else y # insort_cell x ys)"

definition sort_cells :: "cell list \<Rightarrow> cell list" where
  "sort_cells xs = foldr insort_cell xs []"

text \<open>The distinct values of a column, each at its first occurrence.\<close>

fun unique_from :: "cell list \<Rightarrow> cell list \<Rightarrow> cell list" where
  "unique_from seen [] = []"
| "unique_from seen (x # xs) =
     (if list_ex (\<lambda>y. cell_eq y x) seen then unique_from seen xs
      else x # unique_from (x # seen) xs)"

text \<open>
  The mean of a group skips missing values; a sum that meets both infinities is not a
  number. The result of a mean need not be a decimal fraction, so it is a rational.
\<close>

datatype fval = Fin rat | FPosInf | FNegInf | FNaN

fun cell_val :: "cell \<Rightarrow> rat" where
  "cell_val (Num m d) = of_int m / 10 ^ d"
| "cell_val _ = 0"

definition mean_cells :: "cell list \<Rightarrow> fval" where
  "mean_cells xs =
     (let vs = filter (\<lambda>v. v \<noteq> NaN) xs
      in if vs = [] then FNaN
         else if PosInf \<in> set vs \<and> NegInf \<in> set vs then FNaN
         else if PosInf \<in> set vs then FPosInf
         else if NegInf \<in> set vs then FNegInf
         else Fin (sum_list (map cell_val vs) / of_nat (length vs)))"

fun is_str :: "cell \<Rightarrow> bool" where
  "is_str (Str s) = True"
| "is_str _ = False"

text \<open>
  \<^verbatim>\<open>df.groupby(cat)[[num]].mean().reset_index()\<close>: one row per distinct key that is not
  missing, in ascending order of the keys. A label that is not a column raises
  \<^verbatim>\<open>KeyError\<close>, and the mean of a column that holds a text raises \<^verbatim>\<open>TypeError\<close>.
\<close>

definition groupby_mean :: "dataframe \<Rightarrow> string \<Rightarrow> string \<Rightarrow> error + (cell \<times> fval) list" where
  "groupby_mean df cat num =
     (if cat \<notin> set (columns df) then Inl (KeyError [cat])
      else if num \<notin> set (columns df) then Inl (KeyError [num])
      else if list_ex is_str (getitem df num) then Inl TypeError
      else Inr (map (\<lambda>k. (k, mean_cells
                                (map (\<lambda>r. row_get r num)
                                   (filter (\<lambda>r. cell_eq (row_get r cat) k) (rows df)))))
                  (sort_cells (unique_from [] (filter (\<lambda>k. k \<noteq> NaN) (getitem df cat))))))"

definition category_table :: "dataframe \<Rightarrow> (error + (cell \<times> fval) list) option" where
  "category_table df =
     (if ''Category'' \<in> set (columns df) \<and> ''AvgPrice'' \<in> set (columns df)
      then Some (groupby_mean df ''Category'' ''AvgPrice'')
      else None)"

section \<open>Auxiliary notions for the proofs\<close>

text \<open>A decimal digit.\<close>

definition is_digit :: "char \<Rightarrow> bool" where
  "is_digit c = (digit_val c \<noteq> None)"

text \<open>The two replacements of \<^verbatim>\<open>clean_numeric\<close>, one after the other.\<close>

definition strip_seps :: "string \<Rightarrow> string" where
  "strip_seps s = str_replace (CHR '' '') '''' (str_replace (CHR '','') '''' s)"

text \<open>The digits and the unsigned part of the text of a number.\<close>

definition dec_digits :: "int \<Rightarrow> nat \<Rightarrow> string" where
  "dec_digits m d = zero_pad (Suc d) (digits_of (nat \<bar>m\<bar>))"

definition dec_body :: "int \<Rightarrow> nat \<Rightarrow> string" where
  "dec_body m d = (let ds = dec_digits m d in if d = 0 then ds
                  else take (length ds - d) ds @ ''.'' @ drop (length ds - d) ds)"

text \<open>
  What the loop of \<^verbatim>\<open>clean_numeric\<close> does to one cell, and what the whole function does
  to it (the loop, then \<^verbatim>\<open>fillna(0)\<close>).
\<close>

definition clean_text :: "cell \<Rightarrow> cell" where
  "clean_text c = to_numeric (Str (strip_seps (astype_str c)))"

definition clean_cell :: "cell \<Rightarrow> cell" where
  "clean_cell c = fillna (Num 0 0) (clean_text c)"

text \<open>Replacing the cell of one column in a row by a function of it.\<close>

definition upd_cell :: "string \<Rightarrow> (cell \<Rightarrow> cell) \<Rightarrow> row \<Rightarrow> row" where
  "upd_cell c f r = AList.update c (f (row_get r c)) r"

text \<open>What \<^verbatim>\<open>clean_numeric\<close> does to one row of a frame with the labels \<open>cols\<close>.\<close>

definition clean_row :: "string list \<Rightarrow> string list \<Rightarrow> row \<Rightarrow> row" where
  "clean_row cols cs r =
     fold (\<lambda>c. upd_cell c (fillna (Num 0 0))) cs
       (fold (\<lambda>c r. if c \<in> set cols then upd_cell c clean_text r else r) cs r)"

fun is_number :: "cell \<Rightarrow> bool" where
  "is_number (Num m d) = True"
| "is_number PosInf = True"
| "is_number NegInf = True"
| "is_number _ = False"

fun is_finite :: "cell \<Rightarrow> bool" where
  "is_finite (Num m d) = True"
| "is_finite _ = False"

text \<open>The keys of the groups of \<^verbatim>\<open>groupby\<close>, in the order of the result.\<close>

definition group_keys :: "dataframe \<Rightarrow> string \<Rightarrow> cell list" where
  "group_keys df cat = sort_cells (unique_from [] (filter (\<lambda>k. k \<noteq> NaN) (getitem df cat)))"

section \<open>Digits and the text of a number\<close>

lemma digit_val_digit_char: "n < 10 \<Longrightarrow> digit_val (digit_char n) = Some n"
proof -
  assume "n < 10"
  then have "n \<in> {0, 1, 2, 3, 4, 5, 6, 7, 8, 9}" by auto
  then show ?thesis by (auto simp: digit_val_def digit_char_def)
qed

lemma digits_val_append:
  "digits_val (xs @ ys) acc = (case digits_val xs acc of None \<Rightarrow> None | Some a \<Rightarrow> digits_val ys a)"
  by (induction xs arbitrary: acc) (auto split: option.splits)

lemma digits_val_digits_of: "digits_val (digits_of n) 0 = Some n"
proof (induction n rule: digits_of.induct)
  case (1 n)
  show ?case
  proof (cases "n < 10")
    case True
    then show ?thesis by (simp add: digits_of.simps [of n] digit_val_digit_char)
  next
    case False
    with 1 have "digits_val (digits_of (n div 10)) 0 = Some (n div 10)" by simp
    with False show ?thesis
      by (simp add: digits_of.simps [of n] digits_val_append digit_val_digit_char)
  qed
qed

lemma is_digit_digit_char: "n < 10 \<Longrightarrow> is_digit (digit_char n)"
  by (simp add: is_digit_def digit_val_digit_char)

lemma digits_of_digits: "c \<in> set (digits_of n) \<Longrightarrow> is_digit c"
proof (induction n rule: digits_of.induct)
  case (1 n)
  then show ?case
    by (cases "n < 10") (auto simp: digits_of.simps [of n] is_digit_digit_char)
qed

lemma digits_of_nonempty: "digits_of n \<noteq> []"
  by (subst digits_of.simps) simp

lemma digits_val_zeros: "digits_val (replicate k (CHR ''0'')) 0 = Some 0"
  by (induction k) (simp_all add: digit_val_def)

lemma digits_val_zero_pad: "digits_val (zero_pad k s) 0 = digits_val s 0"
  by (simp add: zero_pad_def digits_val_append digits_val_zeros)

lemma zero_pad_digits: "(\<And>c. c \<in> set s \<Longrightarrow> is_digit c) \<Longrightarrow> c \<in> set (zero_pad k s) \<Longrightarrow> is_digit c"
  by (auto simp: zero_pad_def is_digit_def digit_val_def)

lemma length_zero_pad: "k \<le> length (zero_pad k s)"
  by (simp add: zero_pad_def)

lemma str_replace_empty: "str_replace p '''' s = filter (\<lambda>c. c \<noteq> p) s"
  by (induction s) (simp_all add: str_replace_def)

lemma is_digit_not_special:
  "is_digit c \<Longrightarrow> c \<noteq> CHR '','' \<and> c \<noteq> CHR '' '' \<and> c \<noteq> CHR ''.'' \<and> c \<noteq> CHR ''e'' \<and> c \<noteq> CHR ''E''
     \<and> c \<noteq> CHR ''-'' \<and> c \<noteq> CHR ''+'' \<and> c \<noteq> CHR ''i'' \<and> c \<noteq> CHR ''I''"
  by (auto simp: is_digit_def digit_val_def Let_def)

lemma dec_digits_props:
  "Suc d \<le> length (dec_digits m d)"
  "digits_val (dec_digits m d) 0 = Some (nat \<bar>m\<bar>)"
  "c \<in> set (dec_digits m d) \<Longrightarrow> is_digit c"
  unfolding dec_digits_def
    apply (rule length_zero_pad)
   apply (simp add: digits_val_zero_pad digits_val_digits_of)
  apply (erule zero_pad_digits [rotated])
  apply (erule digits_of_digits)
  done

lemma dec_str_body: "dec_str m d = (if m < 0 then ''-'' else '''') @ dec_body m d"
  by (simp add: dec_str_def dec_body_def dec_digits_def Let_def)

lemma dec_body_chars: "c \<in> set (dec_body m d) \<Longrightarrow> is_digit c \<or> c = CHR ''.''"
  by (auto simp: dec_body_def Let_def dec_digits_props(3) split: if_splits dest!: in_set_takeD in_set_dropD)

lemma dec_body_hd: "\<exists>c cs. dec_body m d = c # cs \<and> is_digit c"
proof -
  let ?ds = "dec_digits m d"
  have len: "Suc d \<le> length ?ds" by (rule dec_digits_props)
  then obtain c cs where ds: "?ds = c # cs" by (cases ?ds) auto
  then have "is_digit c" using dec_digits_props(3) [of c m d] by simp
  moreover have "dec_body m d = c # tl (dec_body m d)"
    using len ds by (auto simp: dec_body_def Let_def take_Cons')
  ultimately show ?thesis by blast
qed

lemma parse_mantissa_dec_body: "parse_mantissa (dec_body m d) = Some (nat \<bar>m\<bar>, d)"
proof (cases "d = 0")
  case True
  have nd: "\<forall>c \<in> set (dec_digits m 0). c \<noteq> CHR ''.''"
    using dec_digits_props(3) is_digit_not_special by blast
  then have tw: "takeWhile (\<lambda>c. c \<noteq> CHR ''.'') (dec_digits m 0) = dec_digits m 0"
    by (simp add: takeWhile_eq_all_conv)
  have ne: "dec_digits m 0 \<noteq> []" using dec_digits_props(1) [of 0 m] by auto
  have "parse_mantissa (dec_digits m 0) = Some (nat \<bar>m\<bar>, 0)"
    unfolding parse_mantissa_def Let_def tw
    using ne by (simp add: dec_digits_props(2))
  then show ?thesis using True by (simp add: dec_body_def)
next
  case False
  let ?ds = "dec_digits m d"
  let ?a = "take (length ?ds - d) ?ds"
  let ?b = "drop (length ?ds - d) ?ds"
  have len: "Suc d \<le> length ?ds" by (rule dec_digits_props)
  have body: "dec_body m d = ?a @ CHR ''.'' # ?b"
    using False by (simp add: dec_body_def Let_def)
  have "\<forall>c \<in> set ?a. c \<noteq> CHR ''.''"
    using dec_digits_props(3) is_digit_not_special by (metis in_set_takeD)
  then have tw: "takeWhile (\<lambda>c. c \<noteq> CHR ''.'') (?a @ CHR ''.'' # ?b) = ?a"
    by (simp add: takeWhile_append2 del: length_take)
  have la: "length ?a = length ?ds - d" by simp
  have fp: "drop (Suc (length ?a)) (?a @ CHR ''.'' # ?b) = ?b"
    by (simp del: length_take)
  have lb: "length ?b = d" using len by simp
  have ne: "?a @ ?b \<noteq> []" using len by auto
  have "parse_mantissa (?a @ CHR ''.'' # ?b) = Some (nat \<bar>m\<bar>, d)"
    unfolding parse_mantissa_def Let_def tw fp
    using ne lb by (simp add: dec_digits_props(2) del: length_take length_drop)
  then show ?thesis by (simp only: body)
qed

lemma is_inf_word_digit: "is_digit c \<Longrightarrow> \<not> is_inf_word (c # cs)"
  by (auto simp: is_inf_word_def lower_code_def is_digit_def digit_val_def Let_def split: if_splits)

lemma split_sign_digit: "is_digit c \<Longrightarrow> split_sign (c # cs) = (False, c # cs)"
  by (auto simp: split_sign_def dest: is_digit_not_special)

lemma split_sign_dec_str: "split_sign (dec_str m d) = (m < 0, dec_body m d)"
proof -
  obtain c cs where b: "dec_body m d = c # cs" "is_digit c" using dec_body_hd by blast
  then show ?thesis by (simp add: dec_str_body split_sign_digit) (simp add: split_sign_def)
qed

lemma dec_body_no_exp:
  "takeWhile (\<lambda>c. c \<noteq> CHR ''e'' \<and> c \<noteq> CHR ''E'') (dec_body m d) = dec_body m d"
proof -
  have "\<forall>c \<in> set (dec_body m d). c \<noteq> CHR ''e'' \<and> c \<noteq> CHR ''E''"
    using dec_body_chars is_digit_not_special by fastforce
  then show ?thesis by (simp add: takeWhile_eq_all_conv)
qed

lemma scale_zero: "scale (m < 0) (nat \<bar>m\<bar>) d 0 = Num m d"
  by (auto simp: scale_def Let_def)

lemma parse_float_dec_str: "parse_float (dec_str m d) = Some (Num m d)"
proof -
  obtain c cs where b: "dec_body m d = c # cs" "is_digit c" using dec_body_hd by blast
  then have ni: "\<not> is_inf_word (dec_body m d)" by (simp add: is_inf_word_digit)
  show ?thesis
    apply (simp only: parse_float_def split_sign_dec_str Let_def prod.case ni if_False)
    apply (simp only: dec_body_no_exp parse_mantissa_dec_body)
    apply (simp add: parse_exponent_def scale_zero)
    done
qed

lemma strip_seps_dec_str: "strip_seps (dec_str m d) = dec_str m d"
proof -
  have "\<forall>c \<in> set (dec_str m d). c \<noteq> CHR '','' \<and> c \<noteq> CHR '' ''"
    using dec_body_chars is_digit_not_special by (fastforce simp: dec_str_body)
  then show ?thesis by (simp add: strip_seps_def str_replace_empty filter_id_conv)
qed

lemma clean_text_Num: "clean_text (Num m d) = Num m d"
  by (simp add: clean_text_def strip_seps_dec_str parse_float_dec_str)

lemma clean_text_simps:
  "clean_text NaN = NaN" "clean_text PosInf = PosInf" "clean_text NegInf = NegInf"
  by (simp_all add: clean_text_def strip_seps_def str_replace_def parse_float_def split_sign_def
      is_inf_word_def lower_code_def parse_mantissa_def Let_def digit_val_def)

lemma clean_text_not_Str: "clean_text c \<noteq> Str s"
  apply (cases c)
  apply (simp_all add: clean_text_Num clean_text_simps)
  apply (auto simp: clean_text_def parse_float_def scale_def Let_def split: option.splits prod.splits if_splits)
  done

lemma clean_text_idem: "clean_text (clean_text c) = clean_text c"
  by (cases "clean_text c") (simp_all add: clean_text_Num clean_text_simps clean_text_not_Str)

lemma row_get_update: "row_get (AList.update c v r) c' = (if c' = c then v else row_get r c')"
  by (simp add: row_get_def update_conv')

lemma row_get_upd_cell: "row_get (upd_cell c f r) c' = (if c' = c then f (row_get r c) else row_get r c')"
  by (simp add: upd_cell_def row_get_update)

lemma upd_cell_upd_cell: "upd_cell c f (upd_cell c g r) = upd_cell c (\<lambda>x. f (g x)) r"
  by (simp add: upd_cell_def row_get_update update_last)

lemma setitem_map_getitem:
  "setitem df c (map f (getitem df c)) =
     \<lparr>columns = (if c \<in> set (columns df) then columns df else columns df @ [c]),
      rows = map (upd_cell c f) (rows df)\<rparr>"
  by (simp add: setitem_def getitem_def zip_map2 zip_same_conv_map upd_cell_def)

lemma clean_col_rows:
  "c \<in> set (columns df) \<Longrightarrow>
   clean_col df c = \<lparr>columns = columns df, rows = map (upd_cell c clean_text) (rows df)\<rparr>"
proof -
  assume c: "c \<in> set (columns df)"
  let ?f = "\<lambda>x. Str (str_replace (CHR '' '') '''' (str_replace (CHR '','') '''' (astype_str x)))"
  have 1: "setitem df c (map ?f (getitem df c)) = \<lparr>columns = columns df, rows = map (upd_cell c ?f) (rows df)\<rparr>"
    using c by (simp add: setitem_map_getitem)
  have 2: "(\<lambda>x. to_numeric (?f x)) = clean_text"
    by (rule ext) (simp add: clean_text_def strip_seps_def)
  have 3: "upd_cell c to_numeric (upd_cell c ?f r) = upd_cell c clean_text r" for r
    by (simp only: upd_cell_upd_cell 2)
  show ?thesis
    unfolding clean_col_def Let_def 1
    by (simp add: setitem_map_getitem c 3 del: to_numeric.simps)
qed

lemma clean_loop_rows:
  "columns (clean_loop df cs) = columns df \<and>
   rows (clean_loop df cs) =
     map (\<lambda>r. fold (\<lambda>c r. if c \<in> set (columns df) then upd_cell c clean_text r else r) cs r) (rows df)"
proof (induction cs arbitrary: df)
  case Nil
  show ?case by simp
next
  case (Cons c cs)
  show ?case
  proof (cases "c \<in> set (columns df)")
    case True
    then show ?thesis using Cons [of "clean_col df c"] by (simp add: clean_col_rows comp_def)
  next
    case False
    then show ?thesis using Cons [of df] by simp
  qed
qed

lemma fill_cols_rows:
  "set cs \<subseteq> set (columns df) \<Longrightarrow>
   columns (fill_cols df cs) = columns df \<and>
   rows (fill_cols df cs) = map (\<lambda>r. fold (\<lambda>c. upd_cell c (fillna (Num 0 0))) cs r) (rows df)"
proof (induction cs arbitrary: df)
  case Nil
  show ?case by simp
next
  case (Cons c cs)
  let ?df = "setitem df c (map (fillna (Num 0 0)) (getitem df c))"
  have eq: "?df = \<lparr>columns = columns df, rows = map (upd_cell c (fillna (Num 0 0))) (rows df)\<rparr>"
    using Cons.prems by (simp add: setitem_map_getitem)
  have "set cs \<subseteq> set (columns ?df)" using Cons.prems by (simp add: eq)
  from Cons.IH [OF this] show ?case by (simp add: eq comp_def)
qed

lemma fillna_idem: "fillna v (fillna v c) = fillna v c"
  by (simp add: fillna_def)

lemma row_get_fold_upd:
  assumes idem: "\<And>x. f (f x) = f x"
  shows "row_get (fold (\<lambda>c r. if P c then upd_cell c f r else r) cs r) c' =
           (if c' \<in> set cs \<and> P c' then f (row_get r c') else row_get r c')"
proof (induction cs arbitrary: r)
  case Nil
  show ?case by simp
next
  case (Cons c cs)
  show ?case by (simp add: Cons.IH row_get_upd_cell idem)
qed

lemmas row_get_fold_upd_all = row_get_fold_upd [where P = "\<lambda>_. True", simplified]

lemma clean_numeric_eq:
  "clean_numeric df cs =
     (if set cs \<subseteq> set (columns df)
      then Inr \<lparr>columns = columns df, rows = map (clean_row (columns df) cs) (rows df)\<rparr>
      else Inl (KeyError (filter (\<lambda>c. c \<notin> set (columns df)) cs)))"
proof -
  let ?df1 = "clean_loop df cs"
  have c1: "columns ?df1 = columns df" by (simp add: clean_loop_rows)
  have m: "(filter (\<lambda>c. c \<notin> set (columns df)) cs = []) = (set cs \<subseteq> set (columns df))"
    by (auto simp: filter_empty_conv)
  show ?thesis
  proof (cases "set cs \<subseteq> set (columns df)")
    case True
    then have "set cs \<subseteq> set (columns ?df1)" by (simp add: c1)
    from fill_cols_rows [OF this]
    have "fill_cols ?df1 cs = \<lparr>columns = columns df, rows = map (clean_row (columns df) cs) (rows df)\<rparr>"
      by (cases "fill_cols ?df1 cs") (simp add: c1 clean_loop_rows clean_row_def comp_def)
    then show ?thesis using True m by (simp add: clean_numeric_def Let_def c1)
  next
    case False
    then show ?thesis using m by (simp add: clean_numeric_def Let_def c1)
  qed
qed

lemma row_get_clean_row:
  "row_get (clean_row cols cs r) c =
     (if c \<in> set cs then (if c \<in> set cols then clean_cell (row_get r c) else fillna (Num 0 0) (row_get r c))
      else row_get r c)"
  unfolding clean_row_def
  by (simp add: row_get_fold_upd_all [where f = "fillna (Num 0 0)", OF fillna_idem]
      row_get_fold_upd [where f = clean_text, OF clean_text_idem] clean_cell_def)

lemma getitem_clean_numeric:
  assumes "clean_numeric df cs = Inr df'"
  shows "getitem df' c = (if c \<in> set cs then map clean_cell (getitem df c) else getitem df c)"
    and "columns df' = columns df"
    and "length (rows df') = length (rows df)"
proof -
  from assms have sub: "set cs \<subseteq> set (columns df)"
    and df': "df' = \<lparr>columns = columns df, rows = map (clean_row (columns df) cs) (rows df)\<rparr>"
    by (auto simp: clean_numeric_eq split: if_splits)
  show "getitem df' c = (if c \<in> set cs then map clean_cell (getitem df c) else getitem df c)"
    using sub by (auto simp: df' getitem_def row_get_clean_row)
  show "columns df' = columns df" by (simp add: df')
  show "length (rows df') = length (rows df)" by (simp add: df')
qed

section \<open>Evaluation and the cleaned cell\<close>

lemmas eval_simps =
  clean_numeric_def clean_col_def setitem_def getitem_def row_get_def fillna_def
  str_replace_def parse_float_def split_sign_def is_inf_word_def lower_code_def
  parse_mantissa_def parse_exponent_def scale_def digit_val_def numeric_cols_def
  dec_str_def zero_pad_def digits_of.simps digit_char_def

lemma is_number_clean_cell: "is_number (clean_cell x)"
  by (cases "clean_text x") (simp_all add: clean_cell_def fillna_def clean_text_not_Str)



section \<open>Properties of \<^verbatim>\<open>clean_numeric\<close>\<close>




text \<open>
  C2. The loop skips a requested column that the frame does not have, but the statement
  after the loop selects all requested columns at once and raises \<^verbatim>\<open>KeyError\<close> for those
  that are not there: an uploaded table without \<^verbatim>\<open>AvgPrice\<close> and \<^verbatim>\<open>Sellout\<close> stops the
  program.
\<close>

theorem clean_numeric_missing_column_raises:
  "clean_numeric
     \<lparr>columns = [''Month'', ''Year'', ''Production''],
      rows = [[(''Month'', Str ''Jan''), (''Year'', Num 2023 0), (''Production'', Str ''1,000'')]]\<rparr>
     numeric_cols
   = Inl (KeyError [''AvgPrice'', ''Sellout''])"
  by (simp add: eval_simps)

text \<open>
  C7. The value of a cleaned cell is the number read from the text of the cell with its
  commas and spaces removed; the text \<^verbatim>\<open>1,234.5\<close> becomes the number \<open>1234.5\<close>.
\<close>

theorem clean_numeric_strips_separators:
  assumes "clean_numeric df cs = Inr df'" and "c \<in> set cs" and "i < length (rows df)"
  shows "getitem df' c ! i =
           fillna (Num 0 0)
             (to_numeric (Str (filter (\<lambda>ch. ch \<noteq> CHR '','' \<and> ch \<noteq> CHR '' '')
                                  (astype_str (getitem df c ! i)))))
         \<and> (getitem df c ! i = Str ''1,234.5'' \<longrightarrow> getitem df' c ! i = Num 12345 1)"
proof -
  have "i < length (getitem df c)" using assms(3) by (simp add: getitem_def)
  then have eq: "getitem df' c ! i = clean_cell (getitem df c ! i)"
    using getitem_clean_numeric(1) [OF assms(1), of c] assms(2) by simp
  have f: "strip_seps s = filter (\<lambda>ch. ch \<noteq> CHR '','' \<and> ch \<noteq> CHR '' '') s" for s
    by (simp add: strip_seps_def str_replace_empty conj_commute)
  have "clean_cell (Str ''1,234.5'') = Num 12345 1"
    by (simp add: clean_cell_def clean_text_def strip_seps_def eval_simps)
  then show ?thesis
    using eq by (auto simp: clean_cell_def clean_text_def f simp del: to_numeric.simps)
qed

text \<open>The theorem at a frame whose \<^verbatim>\<open>Production\<close> cell is the text \<^verbatim>\<open>1,234.5\<close>.\<close>

theorem clean_numeric_strips_separators_witness:
  "clean_numeric
     \<lparr>columns = [''Month'', ''Production''],
      rows = [[(''Month'', Str ''Jan''), (''Production'', Str ''1,234.5'')]]\<rparr> [''Production'']
   = Inr \<lparr>columns = [''Month'', ''Production''],
          rows = [[(''Month'', Str ''Jan''), (''Production'', Num 12345 1)]]\<rparr>
   \<and> getitem \<lparr>columns = [''Month'', ''Production''],
          rows = [[(''Month'', Str ''Jan''), (''Production'', Num 12345 1)]]\<rparr> ''Production'' ! 0
       = Num 12345 1"
proof -
  have h: "clean_numeric
     \<lparr>columns = [''Month'', ''Production''],
      rows = [[(''Month'', Str ''Jan''), (''Production'', Str ''1,234.5'')]]\<rparr> [''Production'']
   = Inr \<lparr>columns = [''Month'', ''Production''],
          rows = [[(''Month'', Str ''Jan''), (''Production'', Num 12345 1)]]\<rparr>"
    by (simp add: eval_simps)
  show ?thesis
    using h clean_numeric_strips_separators [OF h, of "''Production''" 0]
    by (simp add: getitem_def row_get_def)
qed

text \<open>
  C8. \<^verbatim>\<open>clean_numeric\<close> leaves every column that is not requested as it was, row for
  row, and changes neither the labels nor the number of rows.
\<close>

theorem clean_numeric_frame:
  assumes "clean_numeric df cs = Inr df'" and "c \<notin> set cs"
  shows "getitem df' c = getitem df c \<and> columns df' = columns df
         \<and> length (rows df') = length (rows df)"
  using getitem_clean_numeric(1) [OF assms(1), of c] getitem_clean_numeric(2,3) [OF assms(1)] assms(2)
  by simp

text \<open>The theorem at the column \<^verbatim>\<open>Month\<close> of a frame cleaned on \<^verbatim>\<open>Production\<close>.\<close>

theorem clean_numeric_frame_witness:
  "clean_numeric
     \<lparr>columns = [''Month'', ''Production''],
      rows = [[(''Month'', Str ''Jan''), (''Production'', Str ''1,234.5'')]]\<rparr> [''Production'']
   = Inr \<lparr>columns = [''Month'', ''Production''],
          rows = [[(''Month'', Str ''Jan''), (''Production'', Num 12345 1)]]\<rparr>
   \<and> ''Month'' \<notin> set [''Production'']
   \<and> getitem \<lparr>columns = [''Month'', ''Production''],
          rows = [[(''Month'', Str ''Jan''), (''Production'', Num 12345 1)]]\<rparr> ''Month'' = [Str ''Jan'']"
proof -
  have h: "clean_numeric
     \<lparr>columns = [''Month'', ''Production''],
      rows = [[(''Month'', Str ''Jan''), (''Production'', Str ''1,234.5'')]]\<rparr> [''Production'']
   = Inr \<lparr>columns = [''Month'', ''Production''],
          rows = [[(''Month'', Str ''Jan''), (''Production'', Num 12345 1)]]\<rparr>"
    by (simp add: eval_simps)
  have n: "''Month'' \<notin> set [''Production'']" by simp
  show ?thesis
    using h n clean_numeric_frame [OF h n] by (simp add: getitem_def row_get_def)
qed

section \<open>Properties of the sidebar filters\<close>

lemma mask_filter: "map fst (filter snd (zip xs (map p xs))) = filter p xs"
  by (induction xs) simp_all

lemma getitem_mask_rows:
  "getitem_mask df (map p (getitem df col)) =
     \<lparr>columns = columns df, rows = filter (\<lambda>r. p (row_get r col)) (rows df)\<rparr>"
proof -
  have "map (\<lambda>r. p (row_get r col)) (rows df) = map p (getitem df col)"
    by (simp add: getitem_def)
  then show ?thesis
    using mask_filter [of "rows df" "\<lambda>r. p (row_get r col)"]
    by (simp add: getitem_mask_def)
qed

lemma filter_step_eq:
  "filter_step sentinel col selected df =
     \<lparr>columns = columns df,
      rows = filter (\<lambda>r. selected \<noteq> Str sentinel \<and> col \<in> set (columns df)
                            \<longrightarrow> cell_eq (row_get r col) selected) (rows df)\<rparr>"
  by (simp add: filter_step_def getitem_mask_rows)

lemma apply_filters_eq:
  "apply_filters df region category =
     \<lparr>columns = columns df,
      rows = filter (\<lambda>r. (region \<noteq> Str ''All Regions'' \<and> ''Region'' \<in> set (columns df)
                               \<longrightarrow> cell_eq (row_get r ''Region'') region)
                        \<and> (category \<noteq> Str ''All Categories'' \<and> ''Category'' \<in> set (columns df)
                               \<longrightarrow> cell_eq (row_get r ''Category'') category)) (rows df)\<rparr>"
  unfolding apply_filters_def
  by (subst filter_step_eq, subst filter_step_eq) (auto intro: filter_cong)

lemma cell_eq_Str: "cell_eq x (Str s) = (x = Str s)"
  by (cases x) auto

text \<open>
  C3. The filter block keeps exactly the rows whose \<^verbatim>\<open>Region\<close> equals the selected
  region and whose \<^verbatim>\<open>Category\<close> equals the selected category, in their order; a
  filter whose column the frame does not have, or whose selected value is the first
  option of its select box (no filter), is not applied. A text equals only the same text.
\<close>

theorem apply_filters_rows:
  "columns (apply_filters df region category) = columns df
   \<and> rows (apply_filters df region category) =
       filter (\<lambda>r. (region \<noteq> Str ''All Regions'' \<and> ''Region'' \<in> set (columns df)
                       \<longrightarrow> cell_eq (row_get r ''Region'') region)
                 \<and> (category \<noteq> Str ''All Categories'' \<and> ''Category'' \<in> set (columns df)
                       \<longrightarrow> cell_eq (row_get r ''Category'') category)) (rows df)
   \<and> (\<forall>x s. cell_eq x (Str s) = (x = Str s))"
  by (simp add: apply_filters_eq cell_eq_Str)

text \<open>The theorem at a frame with the regions \<^verbatim>\<open>West\<close>, \<^verbatim>\<open>East\<close> and \<^verbatim>\<open>west\<close> and no \<^verbatim>\<open>Category\<close>.\<close>

theorem apply_filters_rows_witness:
  "rows (apply_filters
     \<lparr>columns = [''Region'', ''Sellout''],
      rows = [[(''Region'', Str ''West''), (''Sellout'', Num 1 0)],
              [(''Region'', Str ''East''), (''Sellout'', Num 2 0)],
              [(''Region'', Str ''west''), (''Sellout'', Num 3 0)],
              [(''Region'', Str ''West''), (''Sellout'', Num 4 0)]]\<rparr>
     (Str ''West'') (Str ''B''))
   = [[(''Region'', Str ''West''), (''Sellout'', Num 1 0)],
      [(''Region'', Str ''West''), (''Sellout'', Num 4 0)]]"
  using apply_filters_rows [of
     "\<lparr>columns = [''Region'', ''Sellout''],
      rows = [[(''Region'', Str ''West''), (''Sellout'', Num 1 0)],
              [(''Region'', Str ''East''), (''Sellout'', Num 2 0)],
              [(''Region'', Str ''west''), (''Sellout'', Num 3 0)],
              [(''Region'', Str ''West''), (''Sellout'', Num 4 0)]]\<rparr>" "Str ''West''" "Str ''B''"]
  by (simp add: row_get_def)

text \<open>
  C9. When the selected value is the first option of the select box, the filter statement
  returns the frame as it is, whatever the frame holds.
\<close>

theorem sentinel_keeps_table:
  "filter_step sentinel col (Str sentinel) df = df
   \<and> apply_filters df (Str ''All Regions'') (Str ''All Categories'') = df
   \<and> apply_filters df (Str ''All Regions'') category
       = filter_step ''All Categories'' ''Category'' category df
   \<and> apply_filters df region (Str ''All Categories'')
       = filter_step ''All Regions'' ''Region'' region df"
  by (simp add: apply_filters_def filter_step_def)

text \<open>The theorem at a frame one of whose regions is the text \<^verbatim>\<open>All Regions\<close>.\<close>

theorem sentinel_keeps_table_witness:
  "apply_filters
     \<lparr>columns = [''Region''],
      rows = [[(''Region'', Str ''All Regions'')], [(''Region'', Str ''East'')]]\<rparr>
     (Str ''All Regions'') (Str ''All Categories'')
   = \<lparr>columns = [''Region''],
      rows = [[(''Region'', Str ''All Regions'')], [(''Region'', Str ''East'')]]\<rparr>"
  using sentinel_keeps_table [of "''All Regions''" "''Region''"
     "\<lparr>columns = [''Region''],
      rows = [[(''Region'', Str ''All Regions'')], [(''Region'', Str ''East'')]]\<rparr>"
     "Str ''All Categories''" "Str ''All Regions''"]
  by simp

text \<open>
  C10. Filtering a filtered frame again, on the same column and value, returns it unchanged.
\<close>

theorem filter_idempotent:
  "filter_step sentinel col selected (filter_step sentinel col selected df)
     = filter_step sentinel col selected df
   \<and> apply_filters (apply_filters df region category) region category
     = apply_filters df region category"
  by (simp add: filter_step_eq apply_filters_eq)

text \<open>The theorem at a frame with the regions \<^verbatim>\<open>West\<close> and \<^verbatim>\<open>East\<close>.\<close>

theorem filter_idempotent_witness:
  "filter_step ''All Regions'' ''Region'' (Str ''East'')
     (filter_step ''All Regions'' ''Region'' (Str ''East'')
        \<lparr>columns = [''Region''],
         rows = [[(''Region'', Str ''West'')], [(''Region'', Str ''East'')]]\<rparr>)
   = \<lparr>columns = [''Region''], rows = [[(''Region'', Str ''East'')]]\<rparr>"
  using filter_idempotent [of "''All Regions''" "''Region''" "Str ''East''"
        "\<lparr>columns = [''Region''],
         rows = [[(''Region'', Str ''West'')], [(''Region'', Str ''East'')]]\<rparr>"]
  by (simp add: filter_step_def getitem_mask_def getitem_def row_get_def)

section \<open>Properties of the category pricing table\<close>

lemma num_le_val:
  "(m * 10 ^ d' \<le> m' * 10 ^ d) = ((of_int m :: rat) / 10 ^ d \<le> of_int m' / 10 ^ d')"
proof -
  have "((of_int m :: rat) / 10 ^ d \<le> of_int m' / 10 ^ d') =
        ((of_int (m * 10 ^ d') :: rat) \<le> of_int (m' * 10 ^ d))"
    by (simp add: field_simps)
  then show ?thesis by (simp only: of_int_le_iff)
qed

lemma num_eq_val:
  "(m * 10 ^ d' = m' * 10 ^ d) = ((of_int m :: rat) / 10 ^ d = of_int m' / 10 ^ d')"
proof -
  have "((of_int m :: rat) / 10 ^ d = of_int m' / 10 ^ d') =
        ((of_int (m * 10 ^ d') :: rat) = of_int (m' * 10 ^ d))"
    by (simp add: field_simps)
  then show ?thesis by (simp only: of_int_eq_iff)
qed

lemma str_le_total: "str_le s t \<or> str_le t s"
  by (induction s t rule: str_le.induct) auto

lemma str_le_trans: "str_le s t \<Longrightarrow> str_le t u \<Longrightarrow> str_le s u"
proof (induction s t arbitrary: u rule: str_le.induct)
  case (1 t)
  show ?case by simp
next
  case (2 x xs)
  then show ?case by simp
next
  case (3 x xs y ys)
  then show ?case by (cases u) auto
qed

lemma same_rank_le_total: "rank a = rank b \<Longrightarrow> same_rank_le a b \<or> same_rank_le b a"
  using str_le_total by (cases a; cases b) auto

lemma same_rank_le_trans:
  "rank a = rank b \<Longrightarrow> rank b = rank c \<Longrightarrow> same_rank_le a b \<Longrightarrow> same_rank_le b c
     \<Longrightarrow> same_rank_le a c"
proof (cases a)
  case (Num m d)
  then show "rank a = rank b \<Longrightarrow> rank b = rank c \<Longrightarrow> same_rank_le a b \<Longrightarrow> same_rank_le b c
     \<Longrightarrow> same_rank_le a c"
    by (cases b; cases c) (simp_all add: num_le_val)
next
  case (Str s)
  then show "rank a = rank b \<Longrightarrow> rank b = rank c \<Longrightarrow> same_rank_le a b \<Longrightarrow> same_rank_le b c
     \<Longrightarrow> same_rank_le a c"
    by (cases b; cases c) (auto dest: str_le_trans)
qed simp_all

lemma cell_le_total: "cell_le a b \<or> cell_le b a"
  using same_rank_le_total [of a b] same_rank_le_total [of b a]
  by (auto simp: cell_le_def)

lemma cell_le_trans: "cell_le a b \<Longrightarrow> cell_le b c \<Longrightarrow> cell_le a c"
  unfolding cell_le_def using same_rank_le_trans [of a b c] by auto

lemma cell_eq_sym: "cell_eq a b = cell_eq b a"
  by (cases a; cases b) auto

lemma cell_eq_refl: "a \<noteq> NaN \<Longrightarrow> cell_eq a a"
  by (cases a) auto

lemma set_insort_cell: "set (insort_cell x ys) = insert x (set ys)"
  by (induction ys) auto

lemma sorted_insort_cell: "sorted_wrt cell_le ys \<Longrightarrow> sorted_wrt cell_le (insort_cell x ys)"
proof (induction ys)
  case Nil
  show ?case by simp
next
  case (Cons y ys)
  show ?case
  proof (cases "cell_le x y")
    case True
    then show ?thesis using Cons.prems by (auto intro: cell_le_trans)
  next
    case False
    then have "cell_le y x" using cell_le_total by blast
    then show ?thesis using Cons False by (auto simp: set_insort_cell)
  qed
qed

lemma distinct_insort_cell: "distinct (insort_cell x ys) = (x \<notin> set ys \<and> distinct ys)"
  by (induction ys) (auto simp: set_insort_cell)

lemma sort_cells_props:
  "set (sort_cells xs) = set xs"
  "sorted_wrt cell_le (sort_cells xs)"
  "distinct (sort_cells xs) = distinct xs"
  unfolding sort_cells_def
  by (induction xs) (simp_all add: set_insort_cell sorted_insort_cell distinct_insort_cell)

lemma unique_from_subset: "set (unique_from seen xs) \<subseteq> set xs"
  by (induction xs arbitrary: seen) auto

lemma unique_from_fresh:
  "y \<in> set (unique_from seen xs) \<Longrightarrow> s \<in> set seen \<Longrightarrow> \<not> cell_eq s y"
proof (induction xs arbitrary: seen)
  case Nil
  then show ?case by simp
next
  case (Cons a xs)
  show ?case
  proof (cases "list_ex (\<lambda>y. cell_eq y a) seen")
    case True
    then show ?thesis using Cons by simp
  next
    case False
    show ?thesis
    proof (cases "y = a")
      case True
      then show ?thesis using False Cons.prems(2) by (auto simp: list_ex_iff)
    next
      case ne: False
      then have "y \<in> set (unique_from (a # seen) xs)" using Cons.prems(1) False by simp
      moreover have "s \<in> set (a # seen)" using Cons.prems(2) by simp
      ultimately show ?thesis by (rule Cons.IH)
    qed
  qed
qed

lemma unique_from_covers:
  "x \<in> set xs \<Longrightarrow> cell_eq x x \<Longrightarrow>
   (\<exists>y \<in> set seen. cell_eq y x) \<or> (\<exists>y \<in> set (unique_from seen xs). cell_eq y x)"
proof (induction xs arbitrary: seen)
  case Nil
  then show ?case by simp
next
  case (Cons a xs)
  show ?case
  proof (cases "list_ex (\<lambda>y. cell_eq y a) seen")
    case True
    show ?thesis
    proof (cases "x = a")
      case True
      then show ?thesis using \<open>list_ex (\<lambda>y. cell_eq y a) seen\<close> by (auto simp: list_ex_iff)
    next
      case False
      then have "x \<in> set xs" using Cons.prems by simp
      from Cons.IH [OF this Cons.prems(2), of seen] show ?thesis using True by simp
    qed
  next
    case False
    show ?thesis
    proof (cases "x = a")
      case True
      then show ?thesis using False Cons.prems by auto
    next
      case ne: False
      then have "x \<in> set xs" using Cons.prems by simp
      from Cons.IH [OF this Cons.prems(2), of "a # seen"] show ?thesis
        using False by auto
    qed
  qed
qed

lemma unique_from_distinct:
  "(\<And>x. x \<in> set xs \<Longrightarrow> cell_eq x x) \<Longrightarrow>
   distinct (unique_from seen xs) \<and>
   (\<forall>a \<in> set (unique_from seen xs). \<forall>b \<in> set (unique_from seen xs). cell_eq a b \<longrightarrow> a = b)"
proof (induction xs arbitrary: seen)
  case Nil
  show ?case by simp
next
  case (Cons a xs)
  have refl: "\<And>x. x \<in> set xs \<Longrightarrow> cell_eq x x" using Cons.prems by simp
  show ?case
  proof (cases "list_ex (\<lambda>y. cell_eq y a) seen")
    case True
    then show ?thesis using Cons.IH [OF refl, of seen] by simp
  next
    case False
    have fresh: "\<not> cell_eq a y" if "y \<in> set (unique_from (a # seen) xs)" for y
      using unique_from_fresh [OF that, of a] by simp
    have fresh': "\<not> cell_eq y a" if "y \<in> set (unique_from (a # seen) xs)" for y
      using fresh [OF that] by (simp add: cell_eq_sym)
    have aa: "cell_eq a a" using Cons.prems by simp
    have na: "a \<notin> set (unique_from (a # seen) xs)" using fresh aa by blast
    have ih: "distinct (unique_from (a # seen) xs) \<and>
      (\<forall>x \<in> set (unique_from (a # seen) xs). \<forall>b \<in> set (unique_from (a # seen) xs). cell_eq x b \<longrightarrow> x = b)"
      by (rule Cons.IH [OF refl])
    show ?thesis
      using False ih fresh fresh' na by simp
  qed
qed

lemma cell_eq_trans: "cell_eq a b \<Longrightarrow> cell_eq b c \<Longrightarrow> cell_eq a c"
proof (cases a)
  case (Num m d)
  then show "cell_eq a b \<Longrightarrow> cell_eq b c \<Longrightarrow> cell_eq a c"
    by (cases b; cases c) (simp_all add: num_eq_val)
qed (cases b; cases c; simp)+

lemma groupby_mean_eq:
  "groupby_mean df cat num =
     (if cat \<notin> set (columns df) then Inl (KeyError [cat])
      else if num \<notin> set (columns df) then Inl (KeyError [num])
      else if list_ex is_str (getitem df num) then Inl TypeError
      else Inr (map (\<lambda>k. (k, mean_cells
                                (map (\<lambda>r. row_get r num)
                                   (filter (\<lambda>r. cell_eq (row_get r cat) k) (rows df)))))
                  (group_keys df cat)))"
  by (simp add: groupby_mean_def group_keys_def)

lemma group_keys_sorted: "sorted_wrt cell_le (group_keys df cat)"
  by (simp add: group_keys_def sort_cells_props)

lemma group_keys_distinct:
  "distinct (group_keys df cat)"
  "a \<in> set (group_keys df cat) \<Longrightarrow> b \<in> set (group_keys df cat) \<Longrightarrow> cell_eq a b \<Longrightarrow> a = b"
proof -
  let ?xs = "filter (\<lambda>k. k \<noteq> NaN) (getitem df cat)"
  have refl: "\<And>x. x \<in> set ?xs \<Longrightarrow> cell_eq x x" by (simp add: cell_eq_refl)
  have s: "set (group_keys df cat) = set (unique_from [] ?xs)"
    by (simp add: group_keys_def sort_cells_props)
  have d: "distinct (unique_from [] ?xs)"
    and e: "\<forall>a \<in> set (unique_from [] ?xs). \<forall>b \<in> set (unique_from [] ?xs). cell_eq a b \<longrightarrow> a = b"
    using unique_from_distinct [of ?xs "[]", OF refl] by blast+
  show "distinct (group_keys df cat)"
    using d by (simp only: group_keys_def sort_cells_props)
  show "a \<in> set (group_keys df cat) \<Longrightarrow> b \<in> set (group_keys df cat) \<Longrightarrow> cell_eq a b \<Longrightarrow> a = b"
    unfolding s using e by blast
qed

lemma group_keys_subset:
  "k \<in> set (group_keys df cat) \<Longrightarrow> k \<noteq> NaN \<and> k \<in> set (getitem df cat)"
  using unique_from_subset [of "[]" "filter (\<lambda>k. k \<noteq> NaN) (getitem df cat)"]
  by (auto simp: group_keys_def sort_cells_props)

lemma cell_eq_not_NaN: "cell_eq a b \<Longrightarrow> a \<noteq> NaN \<and> b \<noteq> NaN"
  by (cases a; cases b) auto

lemma group_keys_covers:
  "(\<exists>k' \<in> set (group_keys df cat). cell_eq k' k) = (\<exists>x \<in> set (getitem df cat). cell_eq x k)"
proof
  assume "\<exists>k' \<in> set (group_keys df cat). cell_eq k' k"
  then show "\<exists>x \<in> set (getitem df cat). cell_eq x k"
    using group_keys_subset by blast
next
  assume "\<exists>x \<in> set (getitem df cat). cell_eq x k"
  then obtain x where x: "x \<in> set (getitem df cat)" "cell_eq x k" by blast
  then have "x \<noteq> NaN" using cell_eq_not_NaN by blast
  then have "x \<in> set (filter (\<lambda>k. k \<noteq> NaN) (getitem df cat))" "cell_eq x x"
    using x by (simp_all add: cell_eq_refl)
  from unique_from_covers [OF this, of "[]"]
  obtain y where "y \<in> set (group_keys df cat)" "cell_eq y x"
    unfolding group_keys_def sort_cells_props by auto
  then show "\<exists>k' \<in> set (group_keys df cat). cell_eq k' k"
    using x(2) cell_eq_trans by blast
qed

lemma group_nonempty:
  "k \<in> set (group_keys df cat) \<Longrightarrow> filter (\<lambda>r. cell_eq (row_get r cat) k) (rows df) \<noteq> []"
proof -
  assume "k \<in> set (group_keys df cat)"
  then have k: "k \<noteq> NaN" "k \<in> set (getitem df cat)" using group_keys_subset by blast+
  then obtain r where r: "r \<in> set (rows df)" "row_get r cat = k" by (auto simp: getitem_def)
  have "cell_eq (row_get r cat) k" using r(2) k(1) by (simp add: cell_eq_refl)
  then have "r \<in> set (filter (\<lambda>r. cell_eq (row_get r cat) k) (rows df))"
    using r(1) by simp
  then show ?thesis by (rule_tac notI) simp
qed

lemma mean_cells_finite:
  "vs \<noteq> [] \<Longrightarrow> list_all is_finite vs \<Longrightarrow>
   mean_cells vs = Fin (sum_list (map cell_val vs) / of_nat (length vs))"
proof -
  assume ne: "vs \<noteq> []" and fin: "list_all is_finite vs"
  have nn: "\<And>v. v \<in> set vs \<Longrightarrow> v \<noteq> NaN \<and> v \<noteq> PosInf \<and> v \<noteq> NegInf"
    using fin by (auto simp: list_all_iff)
  have 1: "filter (\<lambda>v. v \<noteq> NaN) vs = vs" using nn by (simp add: filter_id_conv)
  have 2: "PosInf \<notin> set vs" "NegInf \<notin> set vs" using nn by blast+
  show ?thesis using ne 2 by (simp add: mean_cells_def 1)
qed

text \<open>
  C4. For a frame that has both columns, the numeric one holding no text, the grouped
  mean returns a table whose keys are in ascending order and pairwise different, are the
  values of the categorical column other than the missing value (each value of the column
  is matched by a key and each key is a value of the column), and each key is paired with
  the mean of the numeric column over the rows with that key: a group that is never
  empty, and whose mean is the sum of its values divided by their number when they are
  finite.
\<close>

theorem groupby_mean_table:
  assumes "cat \<in> set (columns df)" and "num \<in> set (columns df)"
    and "\<not> list_ex is_str (getitem df num)"
  shows "\<exists>t. groupby_mean df cat num = Inr t
     \<and> sorted_wrt cell_le (map fst t) \<and> distinct (map fst t)
     \<and> (\<forall>a \<in> set (map fst t). \<forall>b \<in> set (map fst t). cell_eq a b \<longrightarrow> a = b)
     \<and> NaN \<notin> set (map fst t) \<and> set (map fst t) \<subseteq> set (getitem df cat)
     \<and> (\<forall>k. (\<exists>k' \<in> set (map fst t). cell_eq k' k) = (\<exists>x \<in> set (getitem df cat). cell_eq x k))
     \<and> (\<forall>(k, m) \<in> set t.
           let vs = map (\<lambda>r. row_get r num) (filter (\<lambda>r. cell_eq (row_get r cat) k) (rows df))
           in vs \<noteq> [] \<and> m = mean_cells vs
              \<and> (list_all is_finite vs \<longrightarrow> m = Fin (sum_list (map cell_val vs) / of_nat (length vs))))"
proof -
  let ?g = "\<lambda>k. map (\<lambda>r. row_get r num) (filter (\<lambda>r. cell_eq (row_get r cat) k) (rows df))"
  let ?t = "map (\<lambda>k. (k, mean_cells (?g k))) (group_keys df cat)"
  have eq: "groupby_mean df cat num = Inr ?t" using assms by (simp add: groupby_mean_eq)
  have keys: "map fst ?t = group_keys df cat" by (simp add: comp_def)
  have 1: "sorted_wrt cell_le (map fst ?t)" unfolding keys by (rule group_keys_sorted)
  have 2: "distinct (map fst ?t)" unfolding keys by (rule group_keys_distinct)
  have 3: "\<forall>a \<in> set (map fst ?t). \<forall>b \<in> set (map fst ?t). cell_eq a b \<longrightarrow> a = b"
    unfolding keys using group_keys_distinct(2) by blast
  have 4: "NaN \<notin> set (map fst ?t)" "set (map fst ?t) \<subseteq> set (getitem df cat)"
    unfolding keys using group_keys_subset by blast+
  have 5: "\<forall>k. (\<exists>k' \<in> set (map fst ?t). cell_eq k' k) = (\<exists>x \<in> set (getitem df cat). cell_eq x k)"
    unfolding keys by (simp add: group_keys_covers)
  have 6: "\<forall>(k, m) \<in> set ?t.
           let vs = ?g k
           in vs \<noteq> [] \<and> m = mean_cells vs
              \<and> (list_all is_finite vs \<longrightarrow> m = Fin (sum_list (map cell_val vs) / of_nat (length vs)))"
  proof (clarify, unfold Let_def, intro conjI impI)
    fix k m assume km: "(k, m) \<in> set ?t"
    then have k: "k \<in> set (group_keys df cat)" and m: "m = mean_cells (?g k)" by auto
    show ne: "?g k \<noteq> []" using group_nonempty [OF k] by simp
    show "m = mean_cells (?g k)" by (rule m)
    assume "list_all is_finite (?g k)"
    then show "m = Fin (sum_list (map cell_val (?g k)) / of_nat (length (?g k)))"
      unfolding m by (rule mean_cells_finite [OF ne])
  qed
  show ?thesis
    apply (rule exI [of _ ?t])
    apply (intro conjI)
           apply (rule eq)
          apply (rule 1)
         apply (rule 2)
        apply (rule 3)
       apply (rule 4(1))
      apply (rule 4(2))
     apply (rule 5)
    apply (rule 6)
    done
qed

lemmas gb_eval =
  groupby_mean_def getitem_def row_get_def sort_cells_def cell_le_def mean_cells_def

text \<open>
  The theorem at the frame (B, 5), (A, 10), (missing, 7), (A, 20): the table is (A, 15),
  (B, 5).
\<close>

theorem groupby_mean_table_witness:
  "\<not> list_ex is_str (getitem
       \<lparr>columns = [''Category'', ''AvgPrice''],
        rows = [[(''Category'', Str ''B''), (''AvgPrice'', Num 5 0)],
                [(''Category'', Str ''A''), (''AvgPrice'', Num 10 0)],
                [(''Category'', NaN), (''AvgPrice'', Num 7 0)],
                [(''Category'', Str ''A''), (''AvgPrice'', Num 20 0)]]\<rparr> ''AvgPrice'')
   \<and> groupby_mean
       \<lparr>columns = [''Category'', ''AvgPrice''],
        rows = [[(''Category'', Str ''B''), (''AvgPrice'', Num 5 0)],
                [(''Category'', Str ''A''), (''AvgPrice'', Num 10 0)],
                [(''Category'', NaN), (''AvgPrice'', Num 7 0)],
                [(''Category'', Str ''A''), (''AvgPrice'', Num 20 0)]]\<rparr> ''Category'' ''AvgPrice''
     = Inr [(Str ''A'', Fin 15), (Str ''B'', Fin 5)]"
proof -
  let ?df = "\<lparr>columns = [''Category'', ''AvgPrice''],
        rows = [[(''Category'', Str ''B''), (''AvgPrice'', Num 5 0)],
                [(''Category'', Str ''A''), (''AvgPrice'', Num 10 0)],
                [(''Category'', NaN), (''AvgPrice'', Num 7 0)],
                [(''Category'', Str ''A''), (''AvgPrice'', Num 20 0)]]\<rparr>"
  have c: "''Category'' \<in> set (columns ?df)" and n: "''AvgPrice'' \<in> set (columns ?df)" by simp_all
  have h: "\<not> list_ex is_str (getitem ?df ''AvgPrice'')"
    by (simp add: getitem_def row_get_def)
  have e: "groupby_mean ?df ''Category'' ''AvgPrice'' = Inr [(Str ''A'', Fin 15), (Str ''B'', Fin 5)]"
    by (simp add: gb_eval)
  show ?thesis using h e groupby_mean_table [OF c n h] by simp
qed

section \<open>Properties of the sample data\<close>

lemma length_yearly_loop: "length (fst (yearly_loop randn base noise ms g)) = length ms"
proof (induction ms arbitrary: g)
  case Nil
  show ?case by simp
next
  case (Cons m ms)
  obtain x g1 where r: "randn g = (x, g1)" by (cases "randn g")
  obtain vs g2 where l: "yearly_loop randn base noise ms g1 = (vs, g2)"
    by (cases "yearly_loop randn base noise ms g1")
  have "length vs = length ms" using Cons [of g1] l by simp
  then show ?case by (simp add: r l split: prod.splits)
qed

lemma length_create_yearly_series:
  "length (fst (create_yearly_series randn base noise g)) = 12"
proof -
  have "length months = 12" by (simp add: months_def)
  then show ?thesis by (simp only: create_yearly_series_def length_yearly_loop)
qed

lemma year_frame_cols:
  "length (fst (year_frame randn y g)) = 12"
  "map (\<lambda>r. row_get r ''Year'') (fst (year_frame randn y g)) = replicate 12 (Num y 0)"
  "map (\<lambda>r. row_get r ''Month'') (fst (year_frame randn y g)) = map Str months"
proof -
  obtain p g1 where p: "create_yearly_series randn
      (if y = 2023 then 900000 else if y = 2024 then 950000 else 1100000) (15, 2) g = (p, g1)"
    by (cases "create_yearly_series randn
      (if y = 2023 then 900000 else if y = 2024 then 950000 else 1100000) (15, 2) g")
  obtain a g2 where a: "create_yearly_series randn
      (if y = 2023 then 65 else if y = 2024 then 67 else 72) (5, 2) g1 = (a, g2)"
    by (cases "create_yearly_series randn
      (if y = 2023 then 65 else if y = 2024 then 67 else 72) (5, 2) g1")
  obtain s g3 where s: "create_yearly_series randn
      (if y = 2023 then 1000000 else if y = 2024 then 1200000 else 1450000) (15, 2) g2 = (s, g3)"
    by (cases "create_yearly_series randn
      (if y = 2023 then 1000000 else if y = 2024 then 1200000 else 1450000) (15, 2) g2")
  have lp: "length p = 12" using length_create_yearly_series [of randn _ _ g] p by (metis fst_conv)
  have la: "length a = 12" using length_create_yearly_series [of randn _ _ g1] a by (metis fst_conv)
  have ls: "length s = 12" using length_create_yearly_series [of randn _ _ g2] s by (metis fst_conv)
  let ?z = "zip months (zip p (zip a s))"
  have lm: "length months = 12" by (simp add: months_def)
  have lz: "length (zip p (zip a s)) = 12" using lp la ls by simp
  have yf: "fst (year_frame randn y g) =
      map (\<lambda>(m, p, a, s). [(''Month'', Str m), (''Year'', Num y 0), (''Production'', p),
                             (''AvgPrice'', a), (''Sellout'', s)]) ?z"
    by (simp add: year_frame_def p a s)
  show "length (fst (year_frame randn y g)) = 12"
    unfolding yf using lm lz by simp
  have "map (\<lambda>r. row_get r ''Year'') (fst (year_frame randn y g)) = map (\<lambda>_. Num y 0) ?z"
    unfolding yf by (simp add: row_get_def split_def)
  then show "map (\<lambda>r. row_get r ''Year'') (fst (year_frame randn y g)) = replicate 12 (Num y 0)"
    using lm lz by (simp add: map_replicate_const)
  have "map (\<lambda>r. row_get r ''Month'') (fst (year_frame randn y g)) = map (\<lambda>x. Str (fst x)) ?z"
    unfolding yf by (simp add: row_get_def split_def)
  also have "\<dots> = map Str (map fst ?z)" by simp
  also have "map fst ?z = months" using lm lz by (simp add: map_fst_zip)
  finally show "map (\<lambda>r. row_get r ''Month'') (fst (year_frame randn y g)) = map Str months" .
qed

lemma data_loop_years:
  "\<exists>g1 g2 g3. fst (data_loop randn years g) =
     fst (year_frame randn 2023 g) @ fst (year_frame randn 2024 g1) @ fst (year_frame randn 2025 g2)
     \<and> snd (data_loop randn years g) = g3"
proof -
  obtain r1 g1 where 1: "year_frame randn 2023 g = (r1, g1)" by (cases "year_frame randn 2023 g")
  obtain r2 g2 where 2: "year_frame randn 2024 g1 = (r2, g2)" by (cases "year_frame randn 2024 g1")
  obtain r3 g3 where 3: "year_frame randn 2025 g2 = (r3, g3)" by (cases "year_frame randn 2025 g2")
  have "fst (data_loop randn years g) = r1 @ r2 @ r3" by (simp add: years_def 1 2 3)
  then have "fst (data_loop randn years g) =
     fst (year_frame randn 2023 g) @ fst (year_frame randn 2024 g1) @ fst (year_frame randn 2025 g2)"
    by (simp add: 1 2 3)
  then show ?thesis by blast
qed

text \<open>
  C6. The sample data do not depend on the state the generator was in before: the branch
  seeds the generator itself, so any two runs return the same frame. The frame has the
  five columns and 36 rows, twelve for each of the years 2023, 2024 and 2025, with the
  twelve months in order within each year.
\<close>

theorem sample_data_deterministic:
  "fst (sample_data seed randn g) = fst (sample_data seed randn g')
   \<and> columns (fst (sample_data seed randn g))
       = [''Month'', ''Year'', ''Production'', ''AvgPrice'', ''Sellout'']
   \<and> length (rows (fst (sample_data seed randn g))) = 36
   \<and> getitem (fst (sample_data seed randn g)) ''Year''
       = replicate 12 (Num 2023 0) @ replicate 12 (Num 2024 0) @ replicate 12 (Num 2025 0)
   \<and> getitem (fst (sample_data seed randn g)) ''Month'' = map Str (months @ months @ months)"
proof -
  obtain g1 g2 where d: "fst (data_loop randn years (seed 42)) =
     fst (year_frame randn 2023 (seed 42)) @ fst (year_frame randn 2024 g1)
       @ fst (year_frame randn 2025 g2)"
    using data_loop_years [of randn "seed 42"] by blast
  have r: "rows (fst (sample_data seed randn g)) = fst (data_loop randn years (seed 42))"
    by (simp add: sample_data_def split: prod.splits)
  have 1: "fst (sample_data seed randn g) = fst (sample_data seed randn g')"
    by (simp add: sample_data_def)
  have 2: "columns (fst (sample_data seed randn g))
       = [''Month'', ''Year'', ''Production'', ''AvgPrice'', ''Sellout'']"
    by (simp add: sample_data_def split: prod.splits)
  have 3: "length (rows (fst (sample_data seed randn g))) = 36"
    unfolding r d by (simp add: year_frame_cols(1))
  have 4: "getitem (fst (sample_data seed randn g)) ''Year''
       = replicate 12 (Num 2023 0) @ replicate 12 (Num 2024 0) @ replicate 12 (Num 2025 0)"
    unfolding getitem_def r d by (simp only: map_append year_frame_cols(2))
  have 5: "getitem (fst (sample_data seed randn g)) ''Month'' = map Str (months @ months @ months)"
    unfolding getitem_def r d by (simp only: map_append year_frame_cols(3))
  show ?thesis using 1 2 3 4 5 by blast
qed

section \<open>The pricing table in the program\<close>

text \<open>
  The program builds the table from the cleaned and filtered frame, so its numeric column
  holds no text.
\<close>

lemma cleaned_column_numeric:
  assumes "clean_numeric df cs = Inr df1" and "c \<in> set cs"
  shows "\<not> list_ex is_str (getitem (apply_filters df1 region category) c)"
proof -
  have "is_number x" if "x \<in> set (getitem df1 c)" for x
    using that getitem_clean_numeric(1) [OF assms(1), of c] assms(2)
    by (auto simp: is_number_clean_cell)
  moreover have "set (getitem (apply_filters df1 region category) c) \<subseteq> set (getitem df1 c)"
    by (auto simp: getitem_def apply_filters_eq)
  ultimately have "is_number x" if "x \<in> set (getitem (apply_filters df1 region category) c)" for x
    using that by blast
  moreover have "is_number x \<Longrightarrow> \<not> is_str x" for x by (cases x) simp_all
  ultimately show ?thesis by (auto simp: list_ex_iff)
qed

end
